theory Spec2Isabelle
  imports Main
begin

section \<open>Python values and builtins used by fileseq\<close>

datatype py_error =
  ParseException | ValueError | IndexError | AttributeError | TypeError | KeyError

definition is_digit :: "char \<Rightarrow> bool" where
  "is_digit c = (c \<in> set ''0123456789'')"

definition is_space :: "char \<Rightarrow> bool" where
  "is_space c = (c \<in> set [CHR '' '', CHR 0x09, CHR 0x0A, CHR 0x0B, CHR 0x0C, CHR 0x0D])"

definition digit_val :: "char \<Rightarrow> int" where
  "digit_val c = int (of_char c) - 48"

definition digits_val :: "string \<Rightarrow> int" where
  "digits_val ds = foldl (\<lambda>a c. 10 * a + digit_val c) 0 ds"

definition digit_char :: "nat \<Rightarrow> char" where
  "digit_char d = ''0123456789'' ! d"

text \<open>\<open>str(n)\<close> of an integer: its decimal digits, after a minus sign when negative.\<close>

fun str_nat :: "nat \<Rightarrow> string" where
  "str_nat n = (if n < 10 then [digit_char n] else str_nat (n div 10) @ [digit_char (n mod 10)])"

declare str_nat.simps [simp del]

definition str_int :: "int \<Rightarrow> string" where
  "str_int i = (if i < 0 then CHR ''-'' # str_nat (nat (- i)) else str_nat (nat i))"

definition zeros :: "nat \<Rightarrow> string" where
  "zeros n = replicate n (CHR ''0'')"

text \<open>
  \<open>format(i, "0%dd" % zfill)\<close>: the decimal digits, zero-filled after the sign to the
  width \<open>zfill\<close>, the sign counted in the width.
\<close>

definition format_d :: "nat \<Rightarrow> int \<Rightarrow> string" where
  "format_d zfill i =
     (if i < 0 then
        (let ds = str_nat (nat (- i)) in CHR ''-'' # zeros (zfill - 1 - length ds) @ ds)
      else (let ds = str_nat (nat i) in zeros (zfill - length ds) @ ds))"

text \<open>\<open>s.zfill(width)\<close>: zeros on the left, after a leading sign character.\<close>

definition str_zfill :: "string \<Rightarrow> nat \<Rightarrow> string" where
  "str_zfill s width =
     (if width \<le> length s then s
      else (case s of
              [] \<Rightarrow> zeros width
            | c # r \<Rightarrow>
                if c = CHR ''+'' \<or> c = CHR ''-'' then c # zeros (width - length s) @ r
                else zeros (width - length s) @ s))"

text \<open>\<open>sep.join(xs)\<close> on strings, and \<open>s.split(d)\<close> on a separator of one character.\<close>

fun join :: "string \<Rightarrow> string list \<Rightarrow> string" where
  "join sep [] = []"
| "join sep [x] = x"
| "join sep (x # y # ys) = x @ sep @ join sep (y # ys)"

fun split_on :: "char \<Rightarrow> string \<Rightarrow> string list" where
  "split_on d [] = [[]]"
| "split_on d (c # cs) =
     (if c = d then [] # split_on d cs
      else (case split_on d cs of p # ps \<Rightarrow> (c # p) # ps | [] \<Rightarrow> [[c]]))"

text \<open>
  \<open>int(s)\<close> of Python 2 on a \<open>str\<close> in base 10: whitespace, an optional sign, whitespace
  again, one or more decimal digits, whitespace; anything else is a \<open>ValueError\<close>
  (\<open>None\<close> here).
\<close>

definition py_int :: "string \<Rightarrow> int option" where
  "py_int s =
     (let t = dropWhile is_space s;
          neg = (t \<noteq> [] \<and> hd t = CHR ''-'');
          u = dropWhile is_space
                (if t \<noteq> [] \<and> (hd t = CHR ''-'' \<or> hd t = CHR ''+'') then tl t else t);
          ds = takeWhile is_digit u;
          rest = dropWhile is_digit u
      in if ds = [] then None
         else if list_all is_space rest then Some (if neg then - digits_val ds else digits_val ds)
         else None)"

text \<open>
  \<open>xrange(start, stop, step)\<close> as the list it yields: \<open>start + i * step\<close> for the
  indices \<open>i\<close> below its length; a zero step is a \<open>ValueError\<close>. Frames are unbounded
  integers here: the \<open>OverflowError\<close> of \<open>xrange\<close> on an argument beyond a C long is
  outside the model.
\<close>

definition xrange :: "int \<Rightarrow> int \<Rightarrow> int \<Rightarrow> py_error + int list" where
  "xrange start stop step =
     (if step = 0 then Inl ValueError
      else if 0 < step then
        Inr (map (\<lambda>i. start + int i * step) [0..<nat ((stop - start + step - 1) div step)])
      else
        Inr (map (\<lambda>i. start + int i * step) [0..<nat ((start - stop - step - 1) div (- step))]))"

text \<open>\<open>xrange(start, stop)\<close>, whose step is 1.\<close>

definition xrange2 :: "int \<Rightarrow> int \<Rightarrow> int list" where
  "xrange2 start stop = map (\<lambda>i. start + int i) [0..<nat (stop - start)]"

section \<open>framesToFrameRange\<close>

text \<open>
  The nested function \<open>append\<close>, which renders one run and appends it to \<open>result\<close>; the
  new \<open>result\<close> is returned.
\<close>

definition append_run :: "nat \<Rightarrow> string list \<Rightarrow> int \<Rightarrow> int \<Rightarrow> int \<Rightarrow> nat \<Rightarrow> string list" where
  "append_run zfill result start end chunk count =
     (if count = 1 \<or> start = end then result @ [format_d zfill start]
      else if 1 < chunk \<and> 2 < count then
        result @ [format_d zfill start @ ''-'' @ format_d zfill end @ ''x'' @ str_int chunk]
      else if 2 < count then result @ [join ''-'' [format_d zfill start, format_d zfill end]]
      else result @ [join '','' [format_d zfill start, format_d zfill end]])"

text \<open>
  The loop \<open>for num, frame in enumerate(frames)\<close> from the index \<open>num\<close> on, with the
  variables \<open>start\<close>, \<open>count\<close> and \<open>result\<close> it updates; it returns \<open>result\<close> as the loop
  leaves it. \<open>frames[num-1]\<close> at index 0 is the last frame, and \<open>frames[num+1]\<close> past the
  end raises the \<open>IndexError\<close> whose handler appends the run and breaks.
\<close>

function ftfr_loop ::
  "nat \<Rightarrow> int list \<Rightarrow> nat \<Rightarrow> int \<Rightarrow> nat \<Rightarrow> string list \<Rightarrow> string list" where
  "ftfr_loop zfill frames num start count result =
     (if length frames \<le> num then result
      else if frames ! num = start then ftfr_loop zfill frames (num + 1) start count result
      else
        (let a_fr = (if num = 0 then last frames else frames ! (num - 1));
             b_fr = frames ! num;
             a_chunk = b_fr - a_fr
         in if a_chunk = 0 then ftfr_loop zfill frames (num + 1) start count result
            else if length frames \<le> num + 1
              then append_run zfill result start b_fr a_chunk (count + 1)
            else
              (let c_fr = frames ! (num + 1);
                   b_chunk = c_fr - b_fr
               in if a_chunk \<noteq> b_chunk then
                    (if count + 1 = 2 \<and> b_chunk = 1 then
                       ftfr_loop zfill frames (num + 1) b_fr 1
                         (append_run zfill result start start 1 1)
                     else
                       ftfr_loop zfill frames (num + 1) c_fr 1
                         (append_run zfill result start b_fr a_chunk (count + 1)))
                  else ftfr_loop zfill frames (num + 1) start (count + 1) result)))"
  by pat_completeness auto
termination
  by (relation "measure (\<lambda>(zfill, frames, num, start, count, result). length frames - num)") auto

declare ftfr_loop.simps [simp del]

text \<open>
  \<open>framesToFrameRange(frames, sort, zfill)\<close>. \<open>frames.sort()\<close> sorts the caller's list in
  place, so the list as the call leaves it is returned beside the result. An empty list
  raises \<open>IndexError\<close> at \<open>frames[0]\<close>.
\<close>

definition framesToFrameRange ::
  "int list \<Rightarrow> bool \<Rightarrow> nat \<Rightarrow> int list \<times> (py_error + string)" where
  "framesToFrameRange frames do_sort zfill =
     (if length frames = 1 then (frames, Inr (str_int (frames ! 0)))
      else
        (let frames' = (if do_sort then sort frames else frames) in
         if frames' = [] then (frames', Inl IndexError)
         else (frames', Inr (join '','' (ftfr_loop zfill frames' 0 (frames' ! 0) 1 [])))))"

section \<open>Frame range grammar\<close>

text \<open>
  \<open>$\<close> of Python's \<open>re\<close> matches at the end of the string and just before a newline
  that ends the string.
\<close>

definition at_end :: "string \<Rightarrow> bool" where
  "at_end s = (s = [] \<or> s = [CHR 0x0A])"

text \<open>
  The group \<open>(\-?[0-9]+)\<close> at the start of \<open>s\<close>: the matched text and the rest. The
  character classes of the sign, the digits and of what follows the group in each pattern
  are disjoint, so the longest match is the only one a backtracking matcher can complete.
\<close>

definition take_int :: "string \<Rightarrow> (string \<times> string) option" where
  "take_int s =
     (let sg = (if s \<noteq> [] \<and> hd s = CHR ''-'' then ''-'' else []);
          r = (if s \<noteq> [] \<and> hd s = CHR ''-'' then tl s else s);
          ds = takeWhile is_digit r
      in if ds = [] then None else Some (sg @ ds, dropWhile is_digit r))"

text \<open>\<open>^(\-?[0-9]+)\-(\-?[0-9]+)$\<close>\<close>

definition match_range :: "string \<Rightarrow> string list option" where
  "match_range s =
     (case take_int s of
        None \<Rightarrow> None
      | Some (g1, r1) \<Rightarrow>
          (case r1 of
             [] \<Rightarrow> None
           | c # r2 \<Rightarrow>
               if c = CHR ''-'' then
                 (case take_int r2 of
                    None \<Rightarrow> None
                  | Some (g2, r3) \<Rightarrow> if at_end r3 then Some [g1, g2] else None)
               else None))"

text \<open>\<open>^(\-?[0-9]+)$\<close>\<close>

definition match_single :: "string \<Rightarrow> string list option" where
  "match_single s =
     (case take_int s of
        None \<Rightarrow> None
      | Some (g1, r1) \<Rightarrow> if at_end r1 then Some [g1] else None)"

text \<open>\<open>^(\-?[0-9]+)\-(\-?[0-9]+)([:xy]{1})([0-9]+)$\<close>\<close>

definition match_stepped :: "string \<Rightarrow> string list option" where
  "match_stepped s =
     (case take_int s of
        None \<Rightarrow> None
      | Some (g1, r1) \<Rightarrow>
          (case r1 of
             [] \<Rightarrow> None
           | c # r2 \<Rightarrow>
               if c = CHR ''-'' then
                 (case take_int r2 of
                    None \<Rightarrow> None
                  | Some (g2, r3) \<Rightarrow>
                      (case r3 of
                         [] \<Rightarrow> None
                       | m # r4 \<Rightarrow>
                           if m \<in> set '':xy'' then
                             (if takeWhile is_digit r4 = [] then None
                              else if at_end (dropWhile is_digit r4)
                                then Some [g1, g2, [m], takeWhile is_digit r4]
                              else None)
                           else None))
               else None))"

text \<open>
  \<open>_PATTERNS\<close>, each pattern as the function from a part to the groups of its match, and
  the first pattern that matches a part.
\<close>

definition PATTERNS :: "(string \<Rightarrow> string list option) list" where
  "PATTERNS = [match_range, match_single, match_stepped]"

fun first_match :: "(string \<Rightarrow> string list option) list \<Rightarrow> string \<Rightarrow> string list option" where
  "first_match [] part = None"
| "first_match (pat # pats) part =
     (case pat part of Some groups \<Rightarrow> Some groups | None \<Rightarrow> first_match pats part)"

section \<open>FrameSet\<close>

text \<open>The fields \<open>__frange\<close>, \<open>__set\<close> and \<open>__list\<close> of a FrameSet.\<close>

record FrameSet =
  fs_frange :: string
  fs_set :: "int set"
  fs_list :: "int list"

text \<open>
  \<open>__addFrames\<close>: the frames not yet in the set are added to the set and appended to
  the list, in the order given.
\<close>

definition addFrames :: "FrameSet \<Rightarrow> int list \<Rightarrow> FrameSet" where
  "addFrames self frames =
     (let f = filter (\<lambda>f. f \<notin> fs_set self) frames in
      if f = [] then self
      else self\<lparr>fs_set := fs_set self \<union> set f, fs_list := fs_list self @ f\<rparr>)"

text \<open>
  The loop \<open>for stagger in xrange(chunk, 0, -1)\<close> of the \<open>:\<close> modifier, over the strides
  still to come.
\<close>

fun stagger_loop :: "FrameSet \<Rightarrow> int \<Rightarrow> int \<Rightarrow> int list \<Rightarrow> py_error + FrameSet" where
  "stagger_loop self start end [] = Inr self"
| "stagger_loop self start end (stagger # rest) =
     (case xrange start (end + 1) stagger of
        Inl e \<Rightarrow> Inl e
      | Inr frames \<Rightarrow> stagger_loop (addFrames self frames) start end rest)"

text \<open>
  \<open>__handleMatch\<close>, on the groups of a match: two groups are a range, one a single frame,
  four a stepped range. The branch for \<open>chunk == 0\<close> builds a \<open>ParseException\<close> and drops
  it (the source has no \<open>raise\<close> there), so it has no effect and does not appear below.
\<close>

definition handleMatch :: "FrameSet \<Rightarrow> string list \<Rightarrow> py_error + FrameSet" where
  "handleMatch self groups =
     (if length groups = 2 then
        (case (py_int (groups ! 0), py_int (groups ! 1)) of
           (Some a, Some b) \<Rightarrow> Inr (addFrames self (xrange2 a (b + 1)))
         | _ \<Rightarrow> Inl ValueError)
      else if length groups = 1 then
        (case py_int (groups ! 0) of
           Some a \<Rightarrow> Inr (addFrames self [a])
         | None \<Rightarrow> Inl ValueError)
      else if length groups = 4 then
        (case (py_int (groups ! 3), py_int (groups ! 0), py_int (groups ! 1)) of
           (Some chunk, Some start, Some end) \<Rightarrow>
             if groups ! 2 = ''x'' then
               (case xrange start (end + 1) chunk of
                  Inl e \<Rightarrow> Inl e
                | Inr frames \<Rightarrow> Inr (addFrames self frames))
             else if groups ! 2 = '':'' then
               (case xrange chunk 0 (- 1) of
                  Inl e \<Rightarrow> Inl e
                | Inr staggers \<Rightarrow> stagger_loop self start end staggers)
             else if groups ! 2 = ''y'' then
               (case xrange start (end + 1) chunk of
                  Inl e \<Rightarrow> Inl e
                | Inr not_good \<Rightarrow>
                    Inr (addFrames self
                          (filter (\<lambda>f. f \<notin> set not_good) (xrange2 start (end + 1)))))
             else Inr self
         | _ \<Rightarrow> Inl ValueError)
      else Inr self)"

text \<open>
  \<open>__init__\<close>: the loop over the comma-separated parts. A part that no pattern matches
  raises \<open>ParseException\<close>; an error raised while a part is handled ends the
  construction too.
\<close>

fun init_loop :: "FrameSet \<Rightarrow> string list \<Rightarrow> py_error + FrameSet" where
  "init_loop self [] = Inr self"
| "init_loop self (part # parts) =
     (case first_match PATTERNS part of
        None \<Rightarrow> Inl ParseException
      | Some groups \<Rightarrow>
          (case handleMatch self groups of
             Inl e \<Rightarrow> Inl e
           | Inr self' \<Rightarrow> init_loop self' parts))"

definition FrameSet_init :: "string \<Rightarrow> py_error + FrameSet" where
  "FrameSet_init frange =
     init_loop \<lparr>fs_frange = frange, fs_set = {}, fs_list = []\<rparr> (split_on (CHR '','') frange)"

subsection \<open>FrameSet queries\<close>

text \<open>\<open>xs[idx]\<close>: a negative index counts from the end, one out of range raises.\<close>

definition py_getitem :: "'a list \<Rightarrow> int \<Rightarrow> py_error + 'a" where
  "py_getitem xs idx =
     (if 0 \<le> idx \<and> idx < int (length xs) then Inr (xs ! nat idx)
      else if idx < 0 \<and> 0 \<le> int (length xs) + idx then Inr (xs ! nat (int (length xs) + idx))
      else Inl IndexError)"

text \<open>\<open>xs.index(frame)\<close>: the first position of the frame, or \<open>ValueError\<close>.\<close>

fun list_index :: "int list \<Rightarrow> int \<Rightarrow> py_error + int" where
  "list_index [] frame = Inl ValueError"
| "list_index (f # fs) frame =
     (if f = frame then Inr 0
      else (case list_index fs frame of Inl e \<Rightarrow> Inl e | Inr i \<Rightarrow> Inr (i + 1)))"

definition FrameSet_index :: "FrameSet \<Rightarrow> int \<Rightarrow> py_error + int" where
  "FrameSet_index self frame = list_index (fs_list self) frame"

definition FrameSet_frame :: "FrameSet \<Rightarrow> int \<Rightarrow> py_error + int" where
  "FrameSet_frame self idx = py_getitem (fs_list self) idx"

definition hasFrame :: "FrameSet \<Rightarrow> int \<Rightarrow> bool" where
  "hasFrame self frame = (frame \<in> fs_set self)"

definition FrameSet_start :: "FrameSet \<Rightarrow> py_error + int" where
  "FrameSet_start self = py_getitem (fs_list self) 0"

definition FrameSet_end :: "FrameSet \<Rightarrow> py_error + int" where
  "FrameSet_end self = py_getitem (fs_list self) (- 1)"

definition FrameSet_len :: "FrameSet \<Rightarrow> nat" where
  "FrameSet_len self = length (fs_list self)"

definition FrameSet_str :: "FrameSet \<Rightarrow> string" where
  "FrameSet_str self = fs_frange self"

definition FrameSet_iter :: "FrameSet \<Rightarrow> int list" where
  "FrameSet_iter self = fs_list self"

text \<open>
  \<open>padFrameRange\<close>: each comma-separated range is zero-filled, and one that holds a
  \<open>-\<close> in its first two pieces around it.
\<close>

definition pad_one :: "nat \<Rightarrow> string \<Rightarrow> string" where
  "pad_one zfill current_range =
     (if CHR ''-'' \<notin> set current_range then str_zfill current_range zfill
      else str_zfill (split_on (CHR ''-'') current_range ! 0) zfill @ ''-'' @
           str_zfill (split_on (CHR ''-'') current_range ! 1) zfill)"

definition padFrameRange :: "string \<Rightarrow> nat \<Rightarrow> string" where
  "padFrameRange frs zfill = join '','' (map (pad_one zfill) (split_on (CHR '','') frs))"

definition FrameSet_frameRange :: "FrameSet \<Rightarrow> nat \<Rightarrow> string" where
  "FrameSet_frameRange self zfill = padFrameRange (fs_frange self) zfill"

text \<open>
  The loop of \<open>invertedFrameRange\<close> over the sorted frames: \<open>frames[i+1]\<close> raises
  \<open>IndexError\<close> at the last frame, which ends the loop.
\<close>

fun inverted_loop :: "int list \<Rightarrow> int list \<Rightarrow> int list" where
  "inverted_loop (frame # next_frame # rest) result =
     (if next_frame - frame = 1 then inverted_loop (next_frame # rest) result
      else inverted_loop (next_frame # rest) (result @ xrange2 (frame + 1) next_frame))"
| "inverted_loop frames result = result"

definition invertedFrameRange :: "FrameSet \<Rightarrow> nat \<Rightarrow> py_error + string" where
  "invertedFrameRange self zfill =
     (let result = inverted_loop (sorted_list_of_set (fs_set self)) [] in
      if result = [] then Inr []
      else snd (framesToFrameRange result True zfill))"

text \<open>
  \<open>normalize\<close> hands \<open>self.__list\<close> itself to \<open>framesToFrameRange\<close>, whose
  \<open>frames.sort()\<close> sorts that list in place: the first component is the receiver after
  the call, the second the new FrameSet (or the error raised).
\<close>

definition normalize :: "FrameSet \<Rightarrow> FrameSet \<times> (py_error + FrameSet)" where
  "normalize self =
     (case framesToFrameRange (fs_list self) True 0 of
        (frames', Inl e) \<Rightarrow> (self\<lparr>fs_list := frames'\<rparr>, Inl e)
      | (frames', Inr s) \<Rightarrow> (self\<lparr>fs_list := frames'\<rparr>, FrameSet_init s))"

section \<open>File sequence grammar\<close>

text \<open>
  \<open>^(.*/)?(?:$|(.+?)([\:xy\-0-9,]*)([\#\@]*)(?:(\.[^.]*$)|$))\<close>, matched the way a
  backtracking matcher does: each function below tries the alternatives of one part of
  the pattern in the matcher's order and returns the first that lets the rest match.
\<close>

definition is_range_char :: "char \<Rightarrow> bool" where
  "is_range_char c = (c \<in> set '':xy-0123456789,'')"

definition is_pad_char :: "char \<Rightarrow> bool" where
  "is_pad_char c = (c \<in> set ''#@'')"

text \<open>\<open>(?:(\.[^.]*$)|$)\<close>: the result is group 5.\<close>

definition match_ext :: "string \<Rightarrow> string option option" where
  "match_ext r =
     (if r \<noteq> [] \<and> hd r = CHR ''.'' \<and> CHR ''.'' \<notin> set (tl r) then Some (Some r)
      else if at_end r then Some None
      else None)"

text \<open>A greedy repetition: the longest count first, then shorter ones.\<close>

fun try_from :: "nat \<Rightarrow> (nat \<Rightarrow> 'a option) \<Rightarrow> 'a option" where
  "try_from 0 f = f 0"
| "try_from (Suc n) f = (case f (Suc n) of Some x \<Rightarrow> Some x | None \<Rightarrow> try_from n f)"

definition match_padding :: "string \<Rightarrow> (string \<times> string option) option" where
  "match_padding r =
     try_from (length (takeWhile is_pad_char r))
       (\<lambda>n. case match_ext (drop n r) of
               None \<Rightarrow> None
             | Some g5 \<Rightarrow> Some (take n r, g5))"

definition match_frange :: "string \<Rightarrow> (string \<times> string \<times> string option) option" where
  "match_frange r =
     try_from (length (takeWhile is_range_char r))
       (\<lambda>n. case match_padding (drop n r) of
               None \<Rightarrow> None
             | Some (g4, g5) \<Rightarrow> Some (take n r, g4, g5))"

text \<open>\<open>(.+?)\<close>: the shortest basename first; \<open>.\<close> does not match a newline.\<close>

fun match_basename ::
  "string \<Rightarrow> string \<Rightarrow> (string \<times> string \<times> string \<times> string option) option" where
  "match_basename acc [] = None"
| "match_basename acc (c # cs) =
     (if c = CHR 0x0A then None
      else (case match_frange cs of
              Some (g3, g4, g5) \<Rightarrow> Some (acc @ [c], g3, g4, g5)
            | None \<Rightarrow> match_basename (acc @ [c]) cs))"

text \<open>\<open>(?:$|(.+?)...)\<close>: groups 2 to 5.\<close>

definition match_rest :: "string \<Rightarrow> string option list option" where
  "match_rest r =
     (if at_end r then Some [None, None, None, None]
      else (case match_basename [] r of
              None \<Rightarrow> None
            | Some (g2, g3, g4, g5) \<Rightarrow> Some [Some g2, Some g3, Some g4, g5]))"

text \<open>
  \<open>(.*/)?\<close>: the lengths of the prefixes that end in \<open>/\<close> and hold no newline before
  it, longest first; when the rest matches after none of them, the group is skipped.
\<close>

definition dir_ends :: "string \<Rightarrow> nat list" where
  "dir_ends s =
     filter (\<lambda>n. s ! (n - 1) = CHR ''/'' \<and> CHR 0x0A \<notin> set (take (n - 1) s))
       (rev [1..<length s + 1])"

fun match_dirs :: "string \<Rightarrow> nat list \<Rightarrow> string option list option" where
  "match_dirs s [] =
     (case match_rest s of None \<Rightarrow> None | Some gs \<Rightarrow> Some (None # gs))"
| "match_dirs s (n # ns) =
     (case match_rest (drop n s) of
        Some gs \<Rightarrow> Some (Some (take n s) # gs)
      | None \<Rightarrow> match_dirs s ns)"

definition SEQ_PATTERN :: "string \<Rightarrow> string option list option" where
  "SEQ_PATTERN s = match_dirs s (dir_ends s)"

section \<open>FileSequence\<close>

record FileSequence =
  seq_dir :: string
  seq_basename :: "string option"
  seq_padding :: "string option"
  seq_frameSet :: "FrameSet option"
  seq_ext :: "string option"
  seq_zfill :: nat

text \<open>
  \<open>_PADDING\<close> and \<open>sum([_PADDING[c] for c in padding])\<close>; a character that is no key
  raises \<open>KeyError\<close>.
\<close>

definition PADDING :: "char \<Rightarrow> nat option" where
  "PADDING c = (if c = CHR ''#'' then Some 4 else if c = CHR ''@'' then Some 1 else None)"

fun padding_sum :: "string \<Rightarrow> py_error + nat" where
  "padding_sum [] = Inr 0"
| "padding_sum (c # cs) =
     (case PADDING c of
        None \<Rightarrow> Inl KeyError
      | Some w \<Rightarrow> (case padding_sum cs of Inl e \<Rightarrow> Inl e | Inr n \<Rightarrow> Inr (w + n)))"

text \<open>\<open>"".join(...)\<close> raises \<open>TypeError\<close> on an item that is \<open>None\<close>.\<close>

fun join_items :: "string option list \<Rightarrow> py_error + string" where
  "join_items [] = Inr []"
| "join_items (None # xs) = Inl TypeError"
| "join_items (Some x # xs) =
     (case join_items xs of Inl e \<Rightarrow> Inl e | Inr r \<Rightarrow> Inr (x @ r))"

text \<open>
  \<open>__init__\<close>: a directory that did not match becomes the empty string; basename,
  padding and extension are stored as matched, \<open>None\<close> included; the frame set is built
  when group 3 is not empty; summing over a padding that is \<open>None\<close> raises \<open>TypeError\<close>.
\<close>

definition FileSequence_init :: "string \<Rightarrow> py_error + FileSequence" where
  "FileSequence_init sequence =
     (case SEQ_PATTERN sequence of
        None \<Rightarrow> Inl ParseException
      | Some m \<Rightarrow>
          (case (case m ! 2 of
                   None \<Rightarrow> Inr None
                 | Some g3 \<Rightarrow>
                     if g3 = [] then Inr None
                     else (case FrameSet_init g3 of
                             Inl e \<Rightarrow> Inl e
                           | Inr fs \<Rightarrow> Inr (Some fs))) of
             Inl e \<Rightarrow> Inl e
           | Inr frameSet \<Rightarrow>
               (case m ! 3 of
                  None \<Rightarrow> Inl TypeError
                | Some padding \<Rightarrow>
                    (case padding_sum padding of
                       Inl e \<Rightarrow> Inl e
                     | Inr zfill \<Rightarrow>
                         Inr \<lparr>seq_dir = (case m ! 0 of None \<Rightarrow> [] | Some d \<Rightarrow> d),
                              seq_basename = m ! 1,
                              seq_padding = m ! 3,
                              seq_frameSet = frameSet,
                              seq_ext = m ! 4,
                              seq_zfill = zfill\<rparr>))))"

text \<open>
  \<open>frame(frame)\<close>, for an argument that is an integer or a string: when \<open>int(frame)\<close>
  succeeds, \<open>str(frame)\<close> is zero-filled, otherwise the argument is spliced in as it is.
\<close>

datatype py_value = PyInt int | PyStr string

definition FileSequence_frame :: "FileSequence \<Rightarrow> py_value \<Rightarrow> py_error + string" where
  "FileSequence_frame self frame =
     join_items
       [Some (seq_dir self),
        seq_basename self,
        Some (case frame of
                PyInt i \<Rightarrow> str_zfill (str_int i) (seq_zfill self)
              | PyStr s \<Rightarrow>
                  (case py_int s of
                     Some fr \<Rightarrow> str_zfill s (seq_zfill self)
                   | None \<Rightarrow> s)),
        seq_ext self]"

text \<open>
  The queries that go through the frame set: on \<open>None\<close> an attribute access raises
  \<open>AttributeError\<close>, and indexing or iterating raises \<open>TypeError\<close>.
\<close>

definition FileSequence_frameSet :: "FileSequence \<Rightarrow> FrameSet option" where
  "FileSequence_frameSet self = seq_frameSet self"

definition FileSequence_start :: "FileSequence \<Rightarrow> py_error + int" where
  "FileSequence_start self =
     (case seq_frameSet self of None \<Rightarrow> Inl AttributeError | Some fs \<Rightarrow> FrameSet_start fs)"

definition FileSequence_end :: "FileSequence \<Rightarrow> py_error + int" where
  "FileSequence_end self =
     (case seq_frameSet self of None \<Rightarrow> Inl AttributeError | Some fs \<Rightarrow> FrameSet_end fs)"

definition FileSequence_frameRange :: "FileSequence \<Rightarrow> py_error + string" where
  "FileSequence_frameRange self =
     (case seq_frameSet self of
        None \<Rightarrow> Inl AttributeError
      | Some fs \<Rightarrow> Inr (FrameSet_frameRange fs (seq_zfill self)))"

definition FileSequence_invertedFrameRange :: "FileSequence \<Rightarrow> py_error + string" where
  "FileSequence_invertedFrameRange self =
     (case seq_frameSet self of
        None \<Rightarrow> Inl AttributeError
      | Some fs \<Rightarrow> invertedFrameRange fs (seq_zfill self))"

definition FileSequence_index :: "FileSequence \<Rightarrow> int \<Rightarrow> py_error + string" where
  "FileSequence_index self idx =
     (case seq_frameSet self of
        None \<Rightarrow> Inl TypeError
      | Some fs \<Rightarrow>
          (case py_getitem (fs_list fs) idx of
             Inl e \<Rightarrow> Inl e
           | Inr f \<Rightarrow> FileSequence_frame self (PyInt f)))"

fun frames_of :: "FileSequence \<Rightarrow> int list \<Rightarrow> py_error + string list" where
  "frames_of self [] = Inr []"
| "frames_of self (f # fs) =
     (case FileSequence_frame self (PyInt f) of
        Inl e \<Rightarrow> Inl e
      | Inr p \<Rightarrow> (case frames_of self fs of Inl e \<Rightarrow> Inl e | Inr ps \<Rightarrow> Inr (p # ps)))"

text \<open>Iterating to the end: the paths yielded, or the first error raised.\<close>

definition FileSequence_iter :: "FileSequence \<Rightarrow> py_error + string list" where
  "FileSequence_iter self =
     (case seq_frameSet self of
        None \<Rightarrow> Inl TypeError
      | Some fs \<Rightarrow> frames_of self (FrameSet_iter fs))"

text \<open>
  \<open>str(self.__frameSet or "")\<close>: a FrameSet defines \<open>__len__\<close>, so an empty one is false
  and is rendered as the empty string too.
\<close>

definition FileSequence_str :: "FileSequence \<Rightarrow> py_error + string" where
  "FileSequence_str self =
     join_items
       [Some (seq_dir self),
        seq_basename self,
        Some (case seq_frameSet self of
                None \<Rightarrow> []
              | Some fs \<Rightarrow> if fs_list fs = [] then [] else FrameSet_str fs),
        seq_padding self,
        seq_ext self]"

section \<open>The representation invariant of a FrameSet\<close>

text \<open>The set holds exactly the frames of the list, and the list holds each frame once.\<close>

definition fs_inv :: "FrameSet \<Rightarrow> bool" where
  "fs_inv self = (fs_set self = set (fs_list self) \<and> distinct (fs_list self))"

section \<open>The order of a frame range, as specified\<close>

text \<open>
  The specification's reading of a frame range, to compare the constructor with: the
  frames of a list in the order of their first occurrence, the arithmetic progression of
  a stride within closed bounds, the strides of a staggered fill, and the frames of one
  comma-separated part in its own order.
\<close>

definition first_seen :: "int list \<Rightarrow> int list \<Rightarrow> int list" where
  "first_seen acc xs = foldl (\<lambda>acc x. if x \<in> set acc then acc else acc @ [x]) acc xs"

definition progression :: "int \<Rightarrow> int \<Rightarrow> int \<Rightarrow> int list" where
  "progression start end k = filter (\<lambda>f. (f - start) mod k = 0) [start..end]"

definition descending :: "int \<Rightarrow> int list" where
  "descending chunk = rev [1..chunk]"

definition group_int :: "string \<Rightarrow> int" where
  "group_int g = (case py_int g of Some i \<Rightarrow> i | None \<Rightarrow> 0)"

definition group_frames :: "string list \<Rightarrow> int list" where
  "group_frames groups =
     (if length groups = 2 then [group_int (groups ! 0)..group_int (groups ! 1)]
      else if length groups = 1 then [group_int (groups ! 0)]
      else if length groups = 4 then
        (if groups ! 2 = ''x'' then
           progression (group_int (groups ! 0)) (group_int (groups ! 1)) (group_int (groups ! 3))
         else if groups ! 2 = '':'' then
           concat (map (progression (group_int (groups ! 0)) (group_int (groups ! 1)))
                       (descending (group_int (groups ! 3))))
         else if groups ! 2 = ''y'' then
           filter (\<lambda>f. f \<notin> set (progression (group_int (groups ! 0)) (group_int (groups ! 1))
                                     (group_int (groups ! 3))))
                  [group_int (groups ! 0)..group_int (groups ! 1)]
         else [])
      else [])"

definition token_frames :: "string \<Rightarrow> int list" where
  "token_frames part =
     (case first_match PATTERNS part of None \<Rightarrow> [] | Some groups \<Rightarrow> group_frames groups)"

section \<open>Compaction, as specified\<close>

text \<open>
  The specification's reading of compaction, to compare \<open>framesToFrameRange\<close> with. The
  frames are cut from left to right into maximal runs of constant difference; a run of
  two frames whose second frame is followed by the next integer is cut after its first
  frame instead, and the scan goes on from the second (the tie-break). A run of one frame
  is rendered as the number, a run of two as a comma-joined pair, a longer run as
  \<open>start-end\<close>, with \<open>xchunk\<close> when its difference is above 1. For a run of two with a
  difference above 1 the specification names no rendering; the comma-joined pair is
  taken.
\<close>

text \<open>
  \<open>run_tail d prev xs\<close>: the longest prefix of \<open>xs\<close> that goes on from \<open>prev\<close> in steps of
  \<open>d\<close>, and what is left of \<open>xs\<close>. \<open>spec_runs\<close>: the runs of a list of frames.
\<close>

fun run_tail :: "int \<Rightarrow> int \<Rightarrow> int list \<Rightarrow> int list \<times> int list" where
  "run_tail d prev [] = ([], [])"
| "run_tail d prev (x # xs) =
     (if x - prev = d then (x # fst (run_tail d x xs), snd (run_tail d x xs))
      else ([], x # xs))"

function spec_runs :: "int list \<Rightarrow> int list list" where
  "spec_runs [] = []"
| "spec_runs [a] = [[a]]"
| "spec_runs (a # b # xs) =
     (if fst (run_tail (b - a) b xs) = [] \<and> xs \<noteq> [] \<and> hd xs - b = 1
      then [a] # spec_runs (b # xs)
      else (a # b # fst (run_tail (b - a) b xs)) # spec_runs (snd (run_tail (b - a) b xs)))"
  by pat_completeness auto
termination
proof (relation "measure length")
  have "length (snd (run_tail d p xs)) \<le> length xs" for d p xs
    by (induction xs arbitrary: p) (auto simp: le_SucI)
  then show "\<And>a b xs. \<not> (fst (run_tail (b - a) b xs) = [] \<and> xs \<noteq> [] \<and> hd xs - b = 1) \<Longrightarrow>
       (snd (run_tail (b - a) b xs), a # b # xs) \<in> measure length"
    by (simp add: le_imp_less_Suc less_SucI)
qed auto

text \<open>
  The rendering of one run, the specified compaction of a list, and the runs without a
  last run of one frame.
\<close>

definition render_run :: "nat \<Rightarrow> int list \<Rightarrow> string" where
  "render_run zfill run =
     (if length run = 1 then format_d zfill (hd run)
      else if length run = 2 then format_d zfill (hd run) @ '','' @ format_d zfill (last run)
      else if run ! 1 - run ! 0 = 1
        then format_d zfill (hd run) @ ''-'' @ format_d zfill (last run)
      else format_d zfill (hd run) @ ''-'' @ format_d zfill (last run) @ ''x''
           @ str_int (run ! 1 - run ! 0))"

definition compact_spec :: "nat \<Rightarrow> int list \<Rightarrow> string" where
  "compact_spec zfill frames = join '','' (map (render_run zfill) (spec_runs frames))"

definition drop_last_single :: "int list list \<Rightarrow> int list list" where
  "drop_last_single runs =
     (if runs \<noteq> [] \<and> length (last runs) = 1 then butlast runs else runs)"

text \<open>
  The loop of \<open>framesToFrameRange\<close> on an ascending list, as a recursion over the frames
  still to be read: \<open>a\<close> is the frame read last. It serves the proofs below.
\<close>

fun scan_runs :: "nat \<Rightarrow> int \<Rightarrow> nat \<Rightarrow> int \<Rightarrow> int list \<Rightarrow> string list" where
  "scan_runs zfill start count a [] = []"
| "scan_runs zfill start count a [b] = append_run zfill [] start b (b - a) (count + 1)"
| "scan_runs zfill start count a (b # c # r) =
     (if b - a = c - b then scan_runs zfill start (count + 1) b (c # r)
      else if count + 1 = 2 \<and> c - b = 1
        then append_run zfill [] start start 1 1 @ scan_runs zfill b 1 b (c # r)
      else append_run zfill [] start b (b - a) (count + 1) @ scan_runs zfill c 1 c r)"

text \<open>\<open>is_run d prev xs\<close>: \<open>xs\<close> goes on from \<open>prev\<close> in steps of \<open>d\<close>.\<close>

fun is_run :: "int \<Rightarrow> int \<Rightarrow> int list \<Rightarrow> bool" where
  "is_run d prev [] = True"
| "is_run d prev (x # xs) = (x - prev = d \<and> is_run d x xs)"

section \<open>Ranges are duplicate-free\<close>

lemma distinct_affine: "k \<noteq> 0 \<Longrightarrow> distinct (map (\<lambda>i. a + int i * k) [0..<n])"
  by (simp add: distinct_map inj_on_def)

lemma distinct_xrange: "xrange a b k = Inr frames \<Longrightarrow> distinct frames"
  by (auto simp: xrange_def distinct_affine split: if_splits)

lemma distinct_xrange2: "distinct (xrange2 a b)"
  by (simp add: xrange2_def distinct_map inj_on_def)

section \<open>Construction keeps the invariant\<close>

lemma addFrames_inv: "fs_inv self \<Longrightarrow> distinct frames \<Longrightarrow> fs_inv (addFrames self frames)"
  by (auto simp: fs_inv_def addFrames_def Let_def)

lemma stagger_loop_inv:
  "fs_inv self \<Longrightarrow> stagger_loop self s e ks = Inr self' \<Longrightarrow> fs_inv self'"
proof (induction ks arbitrary: self)
  case Nil
  then show ?case by simp
next
  case (Cons k ks)
  then show ?case
    by (auto split: sum.splits intro: addFrames_inv distinct_xrange)
qed

lemma handleMatch_inv:
  assumes "fs_inv self" and "handleMatch self groups = Inr self'"
  shows "fs_inv self'"
  using assms
  by (auto simp: handleMatch_def distinct_xrange2 split: if_splits option.splits sum.splits
      intro!: addFrames_inv distinct_filter intro: distinct_xrange stagger_loop_inv)

lemma init_loop_inv:
  "fs_inv self \<Longrightarrow> init_loop self parts = Inr self' \<Longrightarrow> fs_inv self'"
proof (induction parts arbitrary: self)
  case Nil
  then show ?case by simp
next
  case (Cons p ps)
  then show ?case
    by (auto split: option.splits sum.splits dest: handleMatch_inv)
qed

lemma FrameSet_init_inv: "FrameSet_init frange = Inr fs \<Longrightarrow> fs_inv fs"
  unfolding FrameSet_init_def
  by (rule init_loop_inv[rotated]) (auto simp: fs_inv_def)

lemma FrameSet_init_overlap:
  "FrameSet_init ''1-5,3-7'' =
     Inr \<lparr>fs_frange = ''1-5,3-7'', fs_set = {1, 2, 3, 4, 5, 6, 7},
          fs_list = [1, 2, 3, 4, 5, 6, 7]\<rparr>"
  by code_simp

text \<open>
  C6. Every FrameSet the constructor returns stores each frame once: its membership set
  and its ordered list have the same number of elements, the list has no duplicate, and
  the set is the set of its frames. \<open>"1-5,3-7"\<close> gives 7 frames.
\<close>

theorem FrameSet_unique:
  "FrameSet_init frange = Inr fs \<Longrightarrow>
     card (fs_set fs) = length (fs_list fs) \<and> distinct (fs_list fs)
     \<and> fs_set fs = set (fs_list fs)"
  using FrameSet_init_inv[of frange fs] by (simp add: fs_inv_def distinct_card)

theorem FrameSet_unique_witness:
  "\<exists>fs. FrameSet_init ''1-5,3-7'' = Inr fs \<and> card (fs_set fs) = length (fs_list fs)
        \<and> distinct (fs_list fs) \<and> FrameSet_len fs = 7"
  using FrameSet_unique[OF FrameSet_init_overlap] FrameSet_init_overlap
  by (simp add: FrameSet_len_def)

section \<open>The order of the frames of a range\<close>

lemma xrange2_upto: "xrange2 a (b + 1) = [a..b]"
proof (rule sorted_distinct_set_unique)
  show "sorted (xrange2 a (b + 1))"
    by (auto simp: xrange2_def sorted_map intro!: sorted_wrt_mono_rel[of _ "(<)"] )
  show "distinct (xrange2 a (b + 1))" by (rule distinct_xrange2)
  show "set (xrange2 a (b + 1)) = set [a..b]"
  proof (auto simp: xrange2_def)
    fix x assume "a \<le> x" "x \<le> b"
    then have "x = a + int (nat (x - a))" "nat (x - a) < nat (b + 1 - a)" by auto
    then show "x \<in> (\<lambda>i. a + int i) ` {0..<nat (b + 1 - a)}" by (metis atLeastLessThan_iff imageI le0)
  qed
qed simp_all

lemma xrange_progression:
  assumes "0 < k"
  shows "xrange start (end + 1) k = Inr (progression start end k)"
proof -
  define n where "n = nat ((end + 1 - start + k - 1) div k)"
  define l where "l = map (\<lambda>i. start + int i * k) [0..<n]"
  have n: "int i < (end - start) div k + 1 \<longleftrightarrow> i < n" for i
  proof -
    have "end + 1 - start + k - 1 = (end - start) + k" by simp
    then have "(end + 1 - start + k - 1) div k = (end - start) div k + 1"
      using assms by (simp only: div_add_self2)
    then show ?thesis unfolding n_def by auto
  qed
  have "l = progression start end k"
  proof (rule sorted_distinct_set_unique)
    show "sorted l"
      unfolding l_def using assms
      by (auto simp: sorted_map intro!: sorted_wrt_mono_rel[of _ "(<)"])
    show "distinct l" unfolding l_def using assms by (simp add: distinct_affine)
    show "sorted (progression start end k)"
      by (simp add: progression_def sorted_filter[where f = "\<lambda>x. x", simplified])
    show "distinct (progression start end k)" by (simp add: progression_def)
    show "set l = set (progression start end k)"
    proof (intro set_eqI iffI)
      fix x assume "x \<in> set l"
      then obtain i where i: "i < n" "x = start + int i * k" unfolding l_def by auto
      then have "int i \<le> (end - start) div k" using n[of i] by simp
      then have "int i * k \<le> ((end - start) div k) * k"
        using assms by (simp add: mult_right_mono)
      also have "\<dots> \<le> end - start"
        using assms by (metis mult.commute pos_mod_sign mult_div_mod_eq add.commute le_add_same_cancel2)
      finally show "x \<in> set (progression start end k)"
        using i assms by (auto simp: progression_def)
    next
      fix x assume "x \<in> set (progression start end k)"
      then have x: "start \<le> x" "x \<le> end" "(x - start) mod k = 0"
        by (auto simp: progression_def)
      then obtain q where q: "x - start = q * k"
        by (auto simp: mod_eq_0_iff_dvd dvd_def mult.commute)
      with x assms have q0: "0 \<le> q"
        by (metis diff_ge_0_iff_ge zero_le_mult_iff not_less)
      from q x have "q * k \<le> end - start" by simp
      then have "(q * k) div k \<le> (end - start) div k"
        using assms by (rule zdiv_mono1)
      then have "q \<le> (end - start) div k"
        using assms by simp
      then have "nat q < n" using n[of "nat q"] q0 by simp
      moreover have "x = start + int (nat q) * k" using q q0 by simp
      ultimately have "x \<in> (\<lambda>i. start + int i * k) ` {0..<n}"
        by (intro image_eqI[of _ _ "nat q"]) simp_all
      then show "x \<in> set l" unfolding l_def by simp
    qed
  qed
  then show ?thesis using assms by (simp add: xrange_def l_def n_def)
qed

lemma descending_nat: "map (\<lambda>i. int n - int i) [0..<n] = rev [1..int n]"
proof (induction n)
  case 0
  then show ?case by simp
next
  case (Suc n)
  have "[0..<Suc n] = 0 # map Suc [0..<n]"
    by (simp only: map_Suc_upt) (simp add: upt_conv_Cons)
  then have "map (\<lambda>i. int (Suc n) - int i) [0..<Suc n]
          = int (Suc n) # map (\<lambda>i. int n - int i) [0..<n]"
    by (simp only: list.map map_map comp_def) simp
  also have "\<dots> = rev ([1..int n] @ [int (Suc n)])" using Suc by simp
  also have "[1..int n] @ [int (Suc n)] = [1..int (Suc n)]"
    by (simp add: upto_rec2[of 1 "1 + int n"])
  finally show ?case .
qed

lemma xrange_descending: "xrange chunk 0 (- 1) = Inr (descending chunk)"
proof (cases "0 \<le> chunk")
  case True
  then have "chunk = int (nat chunk)" by simp
  then show ?thesis
    using descending_nat[of "nat chunk"] by (simp add: xrange_def descending_def)
next
  case False
  then show ?thesis by (simp add: xrange_def descending_def)
qed

lemma first_seen_filter:
  "distinct xs \<Longrightarrow> first_seen acc xs = acc @ filter (\<lambda>x. x \<notin> set acc) xs"
proof (induction xs arbitrary: acc)
  case Nil
  then show ?case by (simp add: first_seen_def)
next
  case (Cons x xs)
  have step: "first_seen acc (x # xs) = first_seen (if x \<in> set acc then acc else acc @ [x]) xs"
    by (simp add: first_seen_def)
  show ?case
  proof (cases "x \<in> set acc")
    case True
    then show ?thesis using Cons by (simp add: step)
  next
    case False
    have "filter (\<lambda>y. y \<notin> set (acc @ [x])) xs = filter (\<lambda>y. y \<notin> set acc) xs"
      using Cons.prems by (auto intro: filter_cong)
    then show ?thesis using Cons False by (simp add: step)
  qed
qed

lemma first_seen_append: "first_seen acc (xs @ ys) = first_seen (first_seen acc xs) ys"
  by (simp add: first_seen_def)

lemma set_first_seen: "set (first_seen acc xs) = set acc \<union> set xs"
proof (induction xs arbitrary: acc)
  case Nil
  then show ?case by (simp add: first_seen_def)
next
  case (Cons x xs)
  have "first_seen acc (x # xs) = first_seen (if x \<in> set acc then acc else acc @ [x]) xs"
    by (simp add: first_seen_def)
  then show ?case using Cons[of "if x \<in> set acc then acc else acc @ [x]"] by auto
qed

lemma addFrames_list:
  assumes "fs_inv self" and "distinct frames"
  shows "fs_list (addFrames self frames) = first_seen (fs_list self) frames"
  using assms by (simp add: first_seen_filter addFrames_def fs_inv_def Let_def)

lemma stagger_loop_list:
  assumes "fs_inv self" and "\<forall>k \<in> set ks. 0 < k"
  shows "\<exists>self'. stagger_loop self start end ks = Inr self' \<and> fs_inv self' \<and>
           fs_list self' = first_seen (fs_list self) (concat (map (progression start end) ks))"
  using assms
proof (induction ks arbitrary: self)
  case Nil
  then show ?case by (simp add: first_seen_def)
next
  case (Cons k ks)
  have k: "xrange start (end + 1) k = Inr (progression start end k)"
    using Cons.prems by (simp add: xrange_progression)
  have d: "distinct (progression start end k)" by (simp add: progression_def)
  have "fs_inv (addFrames self (progression start end k))"
    using Cons.prems d by (simp add: addFrames_inv)
  from Cons.IH[OF this] Cons.prems obtain self' where
    "stagger_loop (addFrames self (progression start end k)) start end ks = Inr self'"
    "fs_inv self'"
    "fs_list self' = first_seen (fs_list (addFrames self (progression start end k)))
                       (concat (map (progression start end) ks))"
    by auto
  then show ?case
    using k d Cons.prems by (simp add: addFrames_list first_seen_append)
qed


lemma digit_not_space: "is_digit c \<Longrightarrow> \<not> is_space c \<and> c \<noteq> CHR ''-'' \<and> c \<noteq> CHR ''+''"
  by (auto simp: is_digit_def is_space_def)

lemma digit_val_nonneg: "is_digit c \<Longrightarrow> 0 \<le> digit_val c"
  by (auto simp: is_digit_def digit_val_def)

lemma foldl_digits_nonneg:
  "0 \<le> a \<Longrightarrow> \<forall>c \<in> set ds. is_digit c \<Longrightarrow> 0 \<le> foldl (\<lambda>a c. 10 * a + digit_val c) a ds"
proof (induction ds arbitrary: a)
  case Nil
  then show ?case by simp
next
  case (Cons d ds)
  then have "0 \<le> 10 * a + digit_val d" using digit_val_nonneg[of d] by simp
  then show ?case using Cons by simp
qed

lemma py_int_digits:
  assumes "ds \<noteq> []" and "\<forall>c \<in> set ds. is_digit c"
  shows "\<exists>n. py_int ds = Some n \<and> 0 \<le> n"
proof -
  have d: "is_digit (hd ds)" using assms by (cases ds) auto
  have h: "hd ds \<noteq> CHR ''-''" "hd ds \<noteq> CHR ''+''" "\<not> is_space (hd ds)"
    using digit_not_space[OF d] by simp_all
  have 1: "dropWhile is_space ds = ds" using assms(1) h(3) by (cases ds) auto
  have 2: "takeWhile is_digit ds = ds" "dropWhile is_digit ds = []"
    using assms(2) by simp_all
  have "py_int ds = Some (digits_val ds)"
    unfolding py_int_def 1 Let_def using h assms(1) by (simp add: 1 2)
  moreover have "0 \<le> digits_val ds"
    unfolding digits_val_def using assms(2) by (intro foldl_digits_nonneg) simp_all
  ultimately show ?thesis by simp
qed

lemma first_match_cases:
  assumes "first_match PATTERNS part = Some groups"
  shows "length groups = 2 \<or> length groups = 1 \<or>
         (length groups = 4 \<and> groups ! 3 \<noteq> [] \<and> (\<forall>c \<in> set (groups ! 3). is_digit c))"
proof -
  have r: "match_range part = Some g \<Longrightarrow> length g = 2" for g
    by (auto simp: match_range_def split: option.splits list.splits if_splits)
  have s: "match_single part = Some g \<Longrightarrow> length g = 1" for g
    by (auto simp: match_single_def split: option.splits list.splits if_splits)
  have t: "match_stepped part = Some g \<Longrightarrow>
             length g = 4 \<and> g ! 3 \<noteq> [] \<and> (\<forall>c \<in> set (g ! 3). is_digit c)" for g
    using set_takeWhileD[of _ is_digit]
    by (auto simp: match_stepped_def split: option.splits list.splits if_splits)
  from assms show ?thesis
    using r s t by (auto simp: PATTERNS_def split: option.splits)
qed

lemma handleMatch_list:
  assumes inv: "fs_inv self" and m: "first_match PATTERNS part = Some groups"
    and h: "handleMatch self groups = Inr self'"
  shows "fs_list self' = first_seen (fs_list self) (group_frames groups)"
proof -
  consider (range) "length groups = 2" | (single) "length groups = 1"
    | (stepped) "length groups = 4" "groups ! 3 \<noteq> []" "\<forall>c \<in> set (groups ! 3). is_digit c"
    using first_match_cases[OF m] by blast
  then show ?thesis
  proof cases
    case range
    then show ?thesis
      using h inv
      by (auto simp: handleMatch_def group_frames_def group_int_def xrange2_upto addFrames_list
          distinct_xrange2[of _ "_ + 1", unfolded xrange2_upto] split: option.splits)
  next
    case single
    then show ?thesis
      using h inv
      by (auto simp: handleMatch_def group_frames_def group_int_def addFrames_list
          split: option.splits)
  next
    case stepped
    from py_int_digits[OF stepped(2,3)] obtain chunk where
      chunk: "py_int (groups ! 3) = Some chunk" "0 \<le> chunk" by blast
    from h stepped(1) chunk obtain start "end" where
      se: "py_int (groups ! 0) = Some start" "py_int (groups ! 1) = Some end"
      by (auto simp: handleMatch_def split: option.splits)
    have gi: "group_int (groups ! 3) = chunk" "group_int (groups ! 0) = start"
      "group_int (groups ! 1) = end"
      using chunk se by (simp_all add: group_int_def)
    have dp: "distinct (progression start end k)" for k by (simp add: progression_def)
    show ?thesis
    proof (cases "groups ! 2 = ''x''")
      case True
      with h stepped(1) chunk se obtain frames where
        f: "xrange start (end + 1) chunk = Inr frames" "self' = addFrames self frames"
        by (auto simp: handleMatch_def split: sum.splits)
      then have "chunk \<noteq> 0" by (auto simp: xrange_def)
      then have "frames = progression start end chunk"
        using chunk f xrange_progression[of chunk start "end"] by simp
      then show ?thesis
        using True stepped(1) f inv gi dp by (simp add: group_frames_def addFrames_list)
    next
      case nx: False
      show ?thesis
      proof (cases "groups ! 2 = '':''")
        case True
        have pos: "\<forall>k \<in> set (descending chunk). 0 < k" by (auto simp: descending_def)
        from stagger_loop_list[OF inv pos, of start "end"] obtain s' where
          s': "stagger_loop self start end (descending chunk) = Inr s'"
          "fs_list s' = first_seen (fs_list self)
                          (concat (map (progression start end) (descending chunk)))"
          by blast
        have "handleMatch self groups = stagger_loop self start end (descending chunk)"
          using True stepped(1) chunk se by (simp add: handleMatch_def xrange_descending)
        then show ?thesis
          using h s' True stepped(1) gi by (simp add: group_frames_def)
      next
        case ns: False
        show ?thesis
        proof (cases "groups ! 2 = ''y''")
          case True
          with h stepped(1) chunk se nx ns obtain not_good where
            f: "xrange start (end + 1) chunk = Inr not_good"
            "self' = addFrames self (filter (\<lambda>f. f \<notin> set not_good) (xrange2 start (end + 1)))"
            by (auto simp: handleMatch_def split: sum.splits)
          then have "chunk \<noteq> 0" by (auto simp: xrange_def)
          then have "not_good = progression start end chunk"
            using chunk f xrange_progression[of chunk start "end"] by simp
          then show ?thesis
            using True nx ns stepped(1) f inv gi
            by (simp add: group_frames_def addFrames_list xrange2_upto)
        next
          case False
          then show ?thesis
            using h nx ns stepped(1) chunk se
            by (simp add: handleMatch_def group_frames_def first_seen_def)
        qed
      qed
    qed
  qed
qed

lemma init_loop_list:
  "fs_inv self \<Longrightarrow> init_loop self parts = Inr self' \<Longrightarrow>
     fs_list self' = first_seen (fs_list self) (concat (map token_frames parts))"
proof (induction parts arbitrary: self)
  case Nil
  then show ?case by (simp add: first_seen_def)
next
  case (Cons p ps)
  from Cons.prems(2) obtain groups s1 where
    g: "first_match PATTERNS p = Some groups" "handleMatch self groups = Inr s1"
    "init_loop s1 ps = Inr self'"
    by (auto split: option.splits sum.splits)
  have "fs_inv s1" using handleMatch_inv[OF Cons.prems(1) g(2)] .
  from Cons.IH[OF this g(3)] handleMatch_list[OF Cons.prems(1) g(1,2)] g(1)
  show ?case by (simp add: token_frames_def first_seen_append)
qed

lemma FrameSet_init_list:
  assumes "FrameSet_init expr = Inr fs"
  shows "fs_list fs = first_seen [] (concat (map token_frames (split_on (CHR '','') expr)))"
proof -
  have "fs_inv \<lparr>fs_frange = expr, fs_set = {}, fs_list = []\<rparr>" by (simp add: fs_inv_def)
  from init_loop_list[OF this assms[unfolded FrameSet_init_def]] show ?thesis by simp
qed

lemma stagger_token:
  assumes "fs_inv self" and "length groups = 4" and "groups ! 2 = '':''"
    and "py_int (groups ! 3) = Some chunk" and "py_int (groups ! 0) = Some start"
    and "py_int (groups ! 1) = Some end" and "0 < chunk" and "start \<le> end"
  shows "\<exists>self'. handleMatch self groups = Inr self' \<and>
           fs_list self' = first_seen (fs_list self)
                             (concat (map (progression start end) (descending chunk))) \<and>
           fs_set self' = fs_set self \<union> (\<Union>k \<in> {1..chunk}. set (progression start end k)) \<and>
           fs_set self' = fs_set self \<union> {start..end}"
proof -
  have pos: "\<forall>k \<in> set (descending chunk). 0 < k" by (auto simp: descending_def)
  from stagger_loop_list[OF assms(1) pos, of start "end"] obtain s' where
    s': "stagger_loop self start end (descending chunk) = Inr s'" "fs_inv s'"
    "fs_list s' = first_seen (fs_list self)
                    (concat (map (progression start end) (descending chunk)))"
    by blast
  have h: "handleMatch self groups = Inr s'"
    using assms s'(1) by (simp add: handleMatch_def xrange_descending)
  have u: "fs_set s' = fs_set self \<union> (\<Union>k \<in> {1..chunk}. set (progression start end k))"
    using s'(2,3) assms(1) by (simp add: fs_inv_def set_first_seen descending_def)
  have "(\<Union>k \<in> {1..chunk}. set (progression start end k)) = {start..end}"
  proof (intro equalityI subsetI)
    fix x assume "x \<in> (\<Union>k \<in> {1..chunk}. set (progression start end k))"
    then show "x \<in> {start..end}" by (auto simp: progression_def)
  next
    fix x assume "x \<in> {start..end}"
    then have "x \<in> set (progression start end 1)" by (simp add: progression_def)
    moreover have "1 \<in> {1..chunk}" using assms(7) by simp
    ultimately show "x \<in> (\<Union>k \<in> {1..chunk}. set (progression start end k))" by blast
  qed
  with h s'(3) u show ?thesis by simp
qed

lemma stagger_example:
  "\<exists>a b. FrameSet_init ''1-100:4'' = Inr a
         \<and> FrameSet_init ''1-100x4,1-100x3,1-100x2,1-100'' = Inr b
         \<and> fs_list a = fs_list b"
proof -
  have "map_sum id fs_list (FrameSet_init ''1-100:4'')
          = map_sum id fs_list (FrameSet_init ''1-100x4,1-100x3,1-100x2,1-100'')
        \<and> isl (FrameSet_init ''1-100:4'') = False"
    by code_simp
  then show ?thesis
    by (cases "FrameSet_init ''1-100:4''";
        cases "FrameSet_init ''1-100x4,1-100x3,1-100x2,1-100''") auto
qed

text \<open>
  C2. A staggered token \<open>start-end:chunk\<close> with \<open>chunk > 0\<close> and \<open>start <= end\<close> adds the
  progressions of the strides \<open>chunk, chunk-1, ..., 1\<close> in that order, each frame at its
  first occurrence, and so every integer of the range; the ordered list of a constructed
  FrameSet is the list of first occurrences in the frames of its comma-separated parts,
  taken from left to right; and \<open>"1-100:4"\<close> gives the same ordered frames as
  \<open>"1-100x4,1-100x3,1-100x2,1-100"\<close>.
\<close>

theorem stagger_and_token_order:
  "(\<forall>self groups chunk start end.
      fs_inv self \<and> length groups = 4 \<and> groups ! 2 = '':'' \<and>
      py_int (groups ! 3) = Some chunk \<and> py_int (groups ! 0) = Some start \<and>
      py_int (groups ! 1) = Some end \<and> 0 < chunk \<and> start \<le> end \<longrightarrow>
      (\<exists>self'. handleMatch self groups = Inr self' \<and>
         fs_list self' = first_seen (fs_list self)
                           (concat (map (progression start end) (descending chunk))) \<and>
         fs_set self' = fs_set self \<union> (\<Union>k \<in> {1..chunk}. set (progression start end k)) \<and>
         fs_set self' = fs_set self \<union> {start..end}))
   \<and> (\<forall>expr fs. FrameSet_init expr = Inr fs \<longrightarrow>
         fs_list fs = first_seen [] (concat (map token_frames (split_on (CHR '','') expr))))
   \<and> (\<exists>a b. FrameSet_init ''1-100:4'' = Inr a
         \<and> FrameSet_init ''1-100x4,1-100x3,1-100x2,1-100'' = Inr b
         \<and> fs_list a = fs_list b)"
  using stagger_token FrameSet_init_list stagger_example by blast

theorem stagger_and_token_order_witness:
  "fs_inv \<lparr>fs_frange = ''1-10:3'', fs_set = {}, fs_list = []\<rparr>
   \<and> py_int ''3'' = Some 3 \<and> py_int ''1'' = Some 1 \<and> py_int ''10'' = Some 10
   \<and> (\<exists>self'. handleMatch \<lparr>fs_frange = ''1-10:3'', fs_set = {}, fs_list = []\<rparr>
                  [''1'', ''10'', '':'', ''3''] = Inr self'
         \<and> fs_list self' = [1, 4, 7, 10, 3, 5, 9, 2, 6, 8]
         \<and> fs_set self' = {1..10})
   \<and> (\<exists>fs. FrameSet_init ''1-10:3,8-12'' = Inr fs
         \<and> fs_list fs = first_seen [] (token_frames ''1-10:3'' @ token_frames ''8-12'')
         \<and> fs_list fs = [1, 4, 7, 10, 3, 5, 9, 2, 6, 8, 11, 12])"
proof -
  let ?e = "\<lparr>fs_frange = ''1-10:3'', fs_set = {}, fs_list = []\<rparr>"
  let ?g = "[''1'', ''10'', '':'', ''3'']"
  have i: "fs_inv ?e" by (simp add: fs_inv_def)
  have p: "py_int ''3'' = Some 3" "py_int ''1'' = Some 1" "py_int ''10'' = Some 10"
    by code_simp+
  have v: "first_seen [] (concat (map (progression 1 10) (descending 3)))
             = [1, 4, 7, 10, 3, 5, 9, 2, 6, 8]"
    by code_simp
  have "fs_inv ?e \<and> length ?g = 4 \<and> ?g ! 2 = '':'' \<and> py_int (?g ! 3) = Some 3 \<and>
        py_int (?g ! 0) = Some 1 \<and> py_int (?g ! 1) = Some 10 \<and> (0::int) < 3 \<and> (1::int) \<le> 10"
    using i p by simp
  with stagger_and_token_order obtain self' where
    s: "handleMatch ?e ?g = Inr self'"
    "fs_list self' = first_seen (fs_list ?e) (concat (map (progression 1 10) (descending 3)))"
    "fs_set self' = fs_set ?e \<union> {1..10}"
    by blast
  have f: "FrameSet_init ''1-10:3,8-12'' =
             Inr \<lparr>fs_frange = ''1-10:3,8-12'', fs_set = {1, 4, 7, 10, 3, 5, 9, 2, 6, 8, 11, 12},
                  fs_list = [1, 4, 7, 10, 3, 5, 9, 2, 6, 8, 11, 12]\<rparr>"
    by code_simp
  have sp: "split_on (CHR '','') ''1-10:3,8-12'' = [''1-10:3'', ''8-12'']"
    by code_simp
  from stagger_and_token_order f have
    "fs_list \<lparr>fs_frange = ''1-10:3,8-12'', fs_set = {1, 4, 7, 10, 3, 5, 9, 2, 6, 8, 11, 12 :: int},
             fs_list = [1, 4, 7, 10, 3, 5, 9, 2, 6, 8, 11, 12]\<rparr>
       = first_seen [] (concat (map token_frames (split_on (CHR '','') ''1-10:3,8-12'')))"
    by blast
  then have "[1, 4, 7, 10, 3, 5, 9, 2, 6, 8, 11, 12]
               = first_seen [] (token_frames ''1-10:3'' @ token_frames ''8-12'')"
    by (simp add: sp)
  with f s v i p show ?thesis by simp
qed

section \<open>Compaction of concrete lists\<close>

text \<open>
  C7. Compacting \<open>[1,2,4,5]\<close> gives \<open>"1,2,4,5"\<close>: each of the two runs has exactly two
  frames, and a run of two is joined by a comma, never by a dash.
\<close>

theorem compact_pairs: "framesToFrameRange [1, 2, 4, 5] True 0 = ([1, 2, 4, 5], Inr ''1,2,4,5'')"
  by code_simp

theorem compact_pairs_counterexample:
  "snd (framesToFrameRange [1, 2, 4, 5] True 0) \<noteq> Inr ''1-2,4-5''"
  by code_simp

text \<open>
  C8. A list of one frame is returned as \<open>str(frames[0])\<close>, whatever \<open>zfill\<close> is: \<open>[7]\<close> with
  width 4 gives \<open>"7"\<close>, while the same frame in a longer list is padded.
\<close>

theorem single_frame_ignores_zfill:
  "framesToFrameRange [f] do_sort zfill = ([f], Inr (str_int f))
   \<and> framesToFrameRange [7] True 4 = ([7], Inr ''7'')
   \<and> framesToFrameRange [7, 9] True 4 = ([7, 9], Inr ''0007,0009'')"
proof -
  have "framesToFrameRange [f] do_sort zfill = ([f], Inr (str_int f))"
    by (simp add: framesToFrameRange_def)
  moreover have "framesToFrameRange [7] True 4 = ([7], Inr ''7'')"
    by code_simp
  moreover have "framesToFrameRange [7, 9] True 4 = ([7, 9], Inr ''0007,0009'')"
    by code_simp
  ultimately show ?thesis by blast
qed

text \<open>
  What \<open>framesToFrameRange\<close> returns for an ascending list of two or more distinct
  frames: the rendering of the specified runs, without the last run when that is a
  single frame.
\<close>

lemma append_run_result:
  "append_run zfill result s e c n = result @ append_run zfill [] s e c n"
  by (simp add: append_run_def)

lemma ftfr_loop_scan:
  assumes "sorted_wrt (<) frames" and "1 \<le> num" and "num \<le> length frames"
    and "start \<in> set (take num frames)"
  shows "ftfr_loop zfill frames num start count result
           = result @ scan_runs zfill start count (frames ! (num - 1)) (drop num frames)"
  using assms
proof (induction "length frames - num" arbitrary: num start count result rule: less_induct)
  case less
  note asc = less.prems(1)
  have lt: "i < j \<Longrightarrow> j < length frames \<Longrightarrow> frames ! i < frames ! j" for i j
    using asc by (simp add: sorted_wrt_iff_nth_less)
  show ?case
  proof (cases "num < length frames")
    case False
    then have "ftfr_loop zfill frames num start count result = result"
      by (subst ftfr_loop.simps) simp
    then show ?thesis using False by simp
  next
    case num: True
    from less.prems(4) obtain i where i: "i < num" "start = frames ! i"
      using num by (auto simp: in_set_conv_nth)
    have ne: "frames ! num \<noteq> start" using lt[of i num] i num by simp
    have n0: "num \<noteq> 0" using less.prems(2) by simp
    have ch: "frames ! num - frames ! (num - 1) \<noteq> 0"
      using lt[of "num - 1" num] num n0 by simp
    show ?thesis
    proof (cases "num + 1 < length frames")
      case False
      then have d: "drop num frames = [frames ! num]"
        using num by (metis Cons_nth_drop_Suc drop_all Suc_eq_plus1 not_less)
      show ?thesis
        using False num ne n0 ch d append_run_result[of zfill result]
        by (subst ftfr_loop.simps) (simp add: Let_def)
    next
      case n1: True
      have d1: "drop (Suc num) frames = frames ! Suc num # drop (Suc (Suc num)) frames"
        using n1 by (simp add: Cons_nth_drop_Suc)
      have d: "drop num frames = frames ! num # frames ! Suc num # drop (Suc (Suc num)) frames"
        using num d1 by (simp flip: Cons_nth_drop_Suc)
      have in1: "start \<in> set (take (num + 1) frames)"
        using i num by (auto simp: in_set_conv_nth intro!: exI[of _ i])
      have in1': "frames ! num \<in> set (take (num + 1) frames)"
        using num by (auto simp: in_set_conv_nth intro!: exI[of _ num])
      have IH1: "ftfr_loop zfill frames (num + 1) s c r
                   = r @ scan_runs zfill s c (frames ! num) (drop (num + 1) frames)"
        if "s \<in> set (take (num + 1) frames)" for s c r
        using less.hyps[of "num + 1" s c r] n1 num that asc by simp
      have IH2: "ftfr_loop zfill frames (num + 1) (frames ! (num + 1)) c r
                   = r @ scan_runs zfill (frames ! (num + 1)) c (frames ! (num + 1))
                          (drop (num + 2) frames)" for c r
      proof -
        have "ftfr_loop zfill frames (num + 1) (frames ! (num + 1)) c r
                = ftfr_loop zfill frames (num + 2) (frames ! (num + 1)) c r"
          using n1 by (subst ftfr_loop.simps) simp
        also have "\<dots> = r @ scan_runs zfill (frames ! (num + 1)) c (frames ! (num + 2 - 1))
                              (drop (num + 2) frames)"
        proof (rule less.hyps)
          show "length frames - (num + 2) < length frames - num" using n1 by simp
          show "frames ! (num + 1) \<in> set (take (num + 2) frames)"
            using n1 by (auto simp: in_set_conv_nth intro!: exI[of _ "num + 1"])
        qed (use n1 asc in simp_all)
        finally show ?thesis by simp
      qed
      show ?thesis
        using num n1 ne n0 ch IH1[OF in1] IH1[OF in1'] IH2
        by (subst ftfr_loop.simps) (simp add: Let_def d d1 append_run_result[of zfill result])
    qed
  qed
qed


lemma run_tail_run:
  "is_run d p t \<Longrightarrow> rest = [] \<or> hd rest - last (p # t) \<noteq> d \<Longrightarrow>
     run_tail d p (t @ rest) = (t, rest)"
proof (induction t arbitrary: p)
  case Nil
  then show ?case by (cases rest) auto
next
  case (Cons x t)
  then show ?case by auto
qed

lemma is_run_snoc: "is_run d p t \<Longrightarrow> b - last (p # t) = d \<Longrightarrow> is_run d p (t @ [b])"
  by (induction t arbitrary: p) auto

lemma spec_runs_nonempty: "xs \<noteq> [] \<Longrightarrow> spec_runs xs \<noteq> []"
  by (cases xs rule: spec_runs.cases) auto

lemma drop_last_single_Cons:
  "runs \<noteq> [] \<Longrightarrow> drop_last_single (r # runs) = r # drop_last_single runs"
  by (simp add: drop_last_single_def)

lemma spec_runs_run:
  assumes "is_run d a (t @ [b])" and "rest = [] \<or> hd rest - b \<noteq> d"
    and "\<not> (t = [] \<and> rest \<noteq> [] \<and> hd rest - b = 1)"
  shows "spec_runs (a # t @ b # rest) = (a # t @ [b]) # spec_runs rest"
proof (cases t)
  case Nil
  then have "run_tail (b - a) b rest = ([], rest)"
    using assms(1,2) by (cases rest) auto
  then show ?thesis using Nil assms(3) by auto
next
  case (Cons b0 t')
  then have r: "is_run d b0 (t' @ [b])" "b0 - a = d" using assms(1) by auto
  have "run_tail d b0 ((t' @ [b]) @ rest) = (t' @ [b], rest)"
    using r(1) assms(2) by (intro run_tail_run) auto
  then show ?thesis using Cons r(2) by simp
qed

lemma spec_runs_split:
  assumes "c - b \<noteq> b - a" and "c - b = 1"
  shows "spec_runs (a # b # c # r) = [a] # spec_runs (b # c # r)"
  using assms by simp

lemma append_run_render:
  assumes "is_run d a (t @ [b])" and "a \<noteq> b" and "0 < d"
  shows "append_run zfill [] a b d (Suc (Suc (length t))) = [render_run zfill (a # t @ [b])]"
proof (cases t)
  case Nil
  then show ?thesis using assms by (simp add: append_run_def render_run_def)
next
  case (Cons b0 t')
  then have "b0 - a = d" using assms(1) by simp
  then show ?thesis
    using Cons assms(2,3) by (auto simp: append_run_def render_run_def)
qed

lemma scan_runs_spec:
  assumes "sorted_wrt (<) (a # t @ rest)" and "is_run d a t"
    and "t \<noteq> [] \<longrightarrow> rest \<noteq> [] \<and> hd rest - last (a # t) = d"
  shows "scan_runs zfill a (Suc (length t)) (last (a # t)) rest
           = map (render_run zfill) (drop_last_single (spec_runs (a # t @ rest)))"
  using assms
proof (induction "length rest" arbitrary: rest a t d rule: less_induct)
  case less
  let ?l = "last (a # t)"
  consider (none) "rest = []" | (one) b where "rest = [b]"
    | (more) b c r where "rest = b # c # r"
    by (cases rest; cases "tl rest") auto
  then show ?case
  proof cases
    case none
    then have "t = []" using less.prems(3) by simp
    then show ?thesis using none by (simp add: drop_last_single_def)
  next
    case 2: (one b)
    have lb: "?l < b" using less.prems(1) 2 by (cases t) (auto simp: sorted_wrt_append)
    have ab: "a \<noteq> b" using less.prems(1) 2 by (auto simp: sorted_wrt_append)
    have run: "is_run (b - ?l) a (t @ [b])"
      using less.prems(2,3) 2 by (cases "t = []") (auto intro: is_run_snoc)
    have "spec_runs (a # t @ b # []) = (a # t @ [b]) # spec_runs []"
      using run by (intro spec_runs_run) auto
    then have "drop_last_single (spec_runs (a # t @ rest)) = [a # t @ [b]]"
      using 2 by (simp add: drop_last_single_def)
    moreover have "append_run zfill [] a b (b - ?l) (Suc (Suc (length t)))
                     = [render_run zfill (a # t @ [b])]"
      using run ab lb by (intro append_run_render) auto
    ultimately show ?thesis using 2 by simp
  next
    case 3: (more b c r)
    have lb: "?l < b" using less.prems(1) 3 by (cases t) (auto simp: sorted_wrt_append)
    have ab: "a \<noteq> b" using less.prems(1) 3 by (auto simp: sorted_wrt_append)
    have run: "is_run (b - ?l) a (t @ [b])"
      using less.prems(2,3) 3 by (cases "t = []") (auto intro: is_run_snoc)
    have asc_b: "sorted_wrt (<) (b # c # r)" and asc_c: "sorted_wrt (<) (c # r)"
      using less.prems(1) 3 by (auto simp: sorted_wrt_append)
    show ?thesis
    proof (cases "b - ?l = c - b")
      case True
      have "scan_runs zfill a (Suc (length (t @ [b]))) (last (a # t @ [b])) (c # r)
              = map (render_run zfill) (drop_last_single (spec_runs (a # (t @ [b]) @ c # r)))"
      proof (rule less.hyps[of "c # r" a "t @ [b]" "b - ?l"])
        show "length (c # r) < length rest" using 3 by simp
        show "sorted_wrt (<) (a # (t @ [b]) @ c # r)" using less.prems(1) 3 by simp
        show "is_run (b - ?l) a (t @ [b])" by (rule run)
        show "t @ [b] \<noteq> [] \<longrightarrow> c # r \<noteq> [] \<and> hd (c # r) - last (a # t @ [b]) = b - ?l"
          using True by simp
      qed
      then show ?thesis using 3 True by simp
    next
      case neq: False
      show ?thesis
      proof (cases "t = [] \<and> c - b = 1")
        case True
        have IH: "scan_runs zfill b (Suc (length ([] :: int list))) (last (b # [])) (c # r)
              = map (render_run zfill) (drop_last_single (spec_runs (b # [] @ c # r)))"
          by (rule less.hyps[of "c # r" b "[]" 0]) (use 3 asc_b in simp_all)
        have "spec_runs (a # b # c # r) = [a] # spec_runs (b # c # r)"
          using True neq by (intro spec_runs_split) simp_all
        then have "drop_last_single (spec_runs (a # t @ rest))
                     = [a] # drop_last_single (spec_runs (b # c # r))"
          using True 3 spec_runs_nonempty[of "b # c # r"]
          by (simp add: drop_last_single_Cons del: spec_runs.simps)
        then show ?thesis
          using True 3 neq IH by (simp add: append_run_def render_run_def del: spec_runs.simps)
      next
        case False
        have IH: "scan_runs zfill c (Suc (length ([] :: int list))) (last (c # [])) r
              = map (render_run zfill) (drop_last_single (spec_runs (c # [] @ r)))"
          by (rule less.hyps[of r c "[]" 0]) (use 3 asc_c in simp_all)
        have "spec_runs (a # t @ b # c # r) = (a # t @ [b]) # spec_runs (c # r)"
          using run neq False by (intro spec_runs_run) auto
        then have "drop_last_single (spec_runs (a # t @ rest))
                     = (a # t @ [b]) # drop_last_single (spec_runs (c # r))"
          using 3 spec_runs_nonempty[of "c # r"]
          by (simp add: drop_last_single_Cons del: spec_runs.simps)
        moreover have "append_run zfill [] a b (b - ?l) (Suc (Suc (length t)))
                         = [render_run zfill (a # t @ [b])]"
          using run ab lb by (intro append_run_render) auto
        ultimately show ?thesis
          using False 3 neq IH by (auto simp del: spec_runs.simps)
      qed
    qed
  qed
qed

lemma framesToFrameRange_runs:
  assumes "sorted_wrt (<) frames" and "2 \<le> length frames"
  shows "framesToFrameRange frames do_sort zfill
           = (frames, Inr (join '','' (map (render_run zfill)
                                          (drop_last_single (spec_runs frames)))))"
proof -
  obtain a rest where f: "frames = a # rest" "rest \<noteq> []"
    using assms(2) by (cases frames; cases "tl frames") auto
  have "sorted frames" using assms(1) by (simp add: strict_sorted_iff)
  then have srt: "sort frames = frames" by (simp add: sorted_sort_id)
  have "ftfr_loop zfill frames 0 (frames ! 0) 1 [] = ftfr_loop zfill frames 1 (frames ! 0) 1 []"
    using f by (subst ftfr_loop.simps) simp
  also have "\<dots> = [] @ scan_runs zfill (frames ! 0) 1 (frames ! (1 - 1)) (drop 1 frames)"
    using assms f by (intro ftfr_loop_scan) auto
  also have "\<dots> = scan_runs zfill a (Suc (length ([] :: int list))) (last (a # [])) rest"
    using f by simp
  also have "\<dots> = map (render_run zfill) (drop_last_single (spec_runs (a # [] @ rest)))"
    using assms(1) f by (intro scan_runs_spec[where d = 0]) simp_all
  finally have "ftfr_loop zfill frames 0 (frames ! 0) 1 []
                  = map (render_run zfill) (drop_last_single (spec_runs frames))"
    using f by simp
  then show ?thesis
    using f srt by (simp add: framesToFrameRange_def Let_def)
qed

lemma framesToFrameRange_spec:
  assumes "sorted_wrt (<) frames" and "2 \<le> length frames"
    and "length (last (spec_runs frames)) \<noteq> 1"
  shows "framesToFrameRange frames do_sort zfill = (frames, Inr (compact_spec zfill frames))"
  using framesToFrameRange_runs[OF assms(1,2)] assms(3)
  by (simp add: compact_spec_def drop_last_single_def)

text \<open>
  C1. The examples of the claim hold, and so does the tie-break, but a run of one frame
  that ends the list is never emitted: \<open>[1,2,3,5]\<close> gives \<open>"1-3"\<close> where the specified
  rendering is \<open>"1-3,5"\<close>, and frame 5 is lost.
\<close>

theorem compact_drops_last_single:
  "framesToFrameRange [1, 2, 3, 5] True 0 = ([1, 2, 3, 5], Inr ''1-3'')
   \<and> compact_spec 0 [1, 2, 3, 5] = ''1-3,5''
   \<and> framesToFrameRange [1, 2, 3, 4, 5] True 0 = ([1, 2, 3, 4, 5], Inr ''1-5'')
   \<and> framesToFrameRange [1, 3, 5, 7] True 0 = ([1, 3, 5, 7], Inr ''1-7x2'')
   \<and> framesToFrameRange [1, 3, 4, 5] True 0 = ([1, 3, 4, 5], Inr ''1,3-5'')"
  by code_simp

section \<open>Construction with a zero stride\<close>

lemma xrange_error: "xrange a b k = Inl e \<Longrightarrow> e = ValueError"
  by (simp add: xrange_def split: if_splits)

lemma stagger_loop_error: "stagger_loop self s e ks = Inl err \<Longrightarrow> err = ValueError"
  by (induction ks arbitrary: self) (auto split: sum.splits dest: xrange_error)

text \<open>
  C4. Handling a matched token never raises \<open>ParseException\<close>. With chunk 0, for \<open>x\<close> and
  \<open>y\<close> the \<open>ValueError\<close> of \<open>xrange\<close> escapes, and for \<open>:\<close> an empty FrameSet is
  returned.
\<close>

theorem zero_chunk_no_ParseException:
  "handleMatch self groups \<noteq> Inl ParseException
   \<and> FrameSet_init ''1-10x0'' = Inl ValueError
   \<and> FrameSet_init ''1-10y0'' = Inl ValueError
   \<and> FrameSet_init ''1-10:0'' = Inr \<lparr>fs_frange = ''1-10:0'', fs_set = {}, fs_list = []\<rparr>"
proof -
  have "handleMatch self groups \<noteq> Inl ParseException"
    by (auto simp: handleMatch_def dest: stagger_loop_error xrange_error
        split: option.splits sum.splits)
  moreover have "FrameSet_init ''1-10x0'' = Inl ValueError"
    "FrameSet_init ''1-10y0'' = Inl ValueError"
    "FrameSet_init ''1-10:0'' = Inr \<lparr>fs_frange = ''1-10:0'', fs_set = {}, fs_list = []\<rparr>"
    by code_simp+
  ultimately show ?thesis by simp
qed

section \<open>Queries on a constructed FrameSet\<close>

text \<open>
  C5. \<open>normalize\<close> changes its receiver: it leaves the ordered list of two or more frames
  sorted. After it, the FrameSet built from \<open>"5,1,3"\<close> holds its frames in ascending
  order, and \<open>start()\<close> answers 1 where it answered 5.
\<close>

theorem normalize_sorts_receiver:
  "fs_list (fst (normalize self))
     = (if length (fs_list self) = 1 then fs_list self else sort (fs_list self))
   \<and> (\<exists>fs. FrameSet_init ''5,1,3'' = Inr fs
        \<and> fs_list fs = [5, 1, 3] \<and> FrameSet_start fs = Inr 5
        \<and> fs_list (fst (normalize fs)) = [1, 3, 5]
        \<and> FrameSet_start (fst (normalize fs)) = Inr 1)"
proof -
  have "fs_list (fst (normalize self))
          = (if length (fs_list self) = 1 then fs_list self else sort (fs_list self))"
    by (auto simp: normalize_def framesToFrameRange_def Let_def split: prod.splits sum.splits)
  moreover have "FrameSet_init ''5,1,3'' =
          Inr \<lparr>fs_frange = ''5,1,3'', fs_set = {5, 1, 3}, fs_list = [5, 1, 3]\<rparr>"
    by code_simp
  moreover have "FrameSet_start \<lparr>fs_frange = ''5,1,3'', fs_set = {5, 1, 3}, fs_list = [5, 1, 3]\<rparr>
                   = Inr 5"
    by code_simp
  moreover have
    "fs_list (fst (normalize \<lparr>fs_frange = ''5,1,3'', fs_set = {5, 1, 3}, fs_list = [5, 1, 3]\<rparr>))
       = [1, 3, 5]"
    by code_simp
  moreover have
    "FrameSet_start (fst (normalize
        \<lparr>fs_frange = ''5,1,3'', fs_set = {5, 1, 3}, fs_list = [5, 1, 3]\<rparr>)) = Inr 1"
    by code_simp
  ultimately show ?thesis by simp
qed

text \<open>
  The list of gaps that \<open>invertedFrameRange\<close> hands to the compactor is right: the
  integers between the least and the greatest frame that are not frames, in ascending
  order.
\<close>

lemma inverted_loop_gaps:
  assumes "sorted xs" and "distinct xs" and "xs \<noteq> []"
  shows "inverted_loop xs acc = acc @ filter (\<lambda>i. i \<notin> set xs) [hd xs..last xs]"
  using assms
proof (induction xs acc rule: inverted_loop.induct)
  case (1 frame next_frame rest result)
  let ?L = "last (next_frame # rest)"
  let ?P = "\<lambda>i. i \<notin> set (frame # next_frame # rest)"
  have lt: "frame < next_frame" using "1.prems" by auto
  have ge: "\<forall>y \<in> set rest. next_frame < y"
    using "1.prems" by (auto simp: order.strict_iff_order)
  have L: "next_frame \<le> ?L" using ge by (cases rest) (auto simp: less_imp_le)
  have tl: "sorted (next_frame # rest)" "distinct (next_frame # rest)" "next_frame # rest \<noteq> []"
    using "1.prems" by auto
  have split: "[frame..?L] = frame # [frame + 1..next_frame - 1] @ [next_frame..?L]"
    using lt L upto_rec1[of frame ?L] upto_split2[of "frame + 1" "next_frame - 1" ?L]
    by (cases "frame + 1 = next_frame") auto
  have mid: "filter ?P [frame + 1..next_frame - 1] = [frame + 1..next_frame - 1]"
    using ge by (auto simp: filter_id_conv)
  have hi: "filter ?P [next_frame..?L] = filter (\<lambda>i. i \<notin> set (next_frame # rest)) [next_frame..?L]"
    using lt by (auto intro: filter_cong)
  have gaps: "filter ?P [hd (frame # next_frame # rest)..last (frame # next_frame # rest)]
               = [frame + 1..next_frame - 1]
                 @ filter (\<lambda>i. i \<notin> set (next_frame # rest)) [next_frame..?L]"
    using split mid hi by simp
  show ?case
  proof (cases "next_frame - frame = 1")
    case True
    then have "[frame + 1..next_frame - 1] = []" by simp
    with True "1.IH"(1)[OF True tl] gaps show ?thesis by simp
  next
    case False
    have "xrange2 (frame + 1) next_frame = [frame + 1..next_frame - 1]"
      using xrange2_upto[of "frame + 1" "next_frame - 1"] by simp
    with False "1.IH"(2)[OF False tl] gaps show ?thesis by simp
  qed
qed simp_all

lemma sorted_le_last: "sorted xs \<Longrightarrow> y \<in> set xs \<Longrightarrow> y \<le> last (xs :: int list)"
  by (induction xs) auto

lemma invertedFrameRange_gaps:
  assumes "finite (fs_set self)" and "fs_set self \<noteq> {}"
  shows "inverted_loop (sorted_list_of_set (fs_set self)) []
           = filter (\<lambda>i. i \<notin> fs_set self) [Min (fs_set self)..Max (fs_set self)]"
proof -
  let ?xs = "sorted_list_of_set (fs_set self)"
  have ne: "?xs \<noteq> []" using assms by simp
  have s: "sorted ?xs" "distinct ?xs" "set ?xs = fs_set self" using assms by simp_all
  have "Min (set ?xs) = hd ?xs"
    using ne s(1) by (intro Min_eqI) (cases ?xs; auto)+
  moreover have "Max (set ?xs) = last ?xs"
    using ne s(1) by (intro Max_eqI) (auto intro: sorted_le_last)
  ultimately show ?thesis
    using inverted_loop_gaps[OF s(1,2) ne, of "[]"] s(3) by simp
qed

text \<open>A FrameSet without a gap has the empty inverted range.\<close>

lemma inverted_gap_free:
  assumes "finite (fs_set self)"
    and "\<And>i. Min (fs_set self) \<le> i \<Longrightarrow> i \<le> Max (fs_set self) \<Longrightarrow> i \<in> fs_set self"
  shows "invertedFrameRange self zfill = Inr []"
proof (cases "fs_set self = {}")
  case True
  then show ?thesis by (simp add: invertedFrameRange_def)
next
  case False
  have "filter (\<lambda>i. i \<notin> fs_set self) [Min (fs_set self)..Max (fs_set self)] = []"
    using assms(2) by (auto simp: filter_empty_conv)
  then show ?thesis
    using invertedFrameRange_gaps[OF assms(1) False] by (simp add: invertedFrameRange_def)
qed

lemma inverted_gap_free_example:
  "\<exists>fs. FrameSet_init ''3-5,1-4'' = Inr fs \<and> invertedFrameRange fs 4 = Inr []"
proof -
  have "FrameSet_init ''3-5,1-4'' =
          Inr \<lparr>fs_frange = ''3-5,1-4'', fs_set = {3, 4, 5, 1, 2}, fs_list = [3, 4, 5, 1, 2]\<rparr>"
    by code_simp
  moreover have
    "invertedFrameRange \<lparr>fs_frange = ''3-5,1-4'', fs_set = {3, 4, 5, 1, 2}, fs_list = [3, 4, 5, 1, 2]\<rparr> 4
       = Inr []"
    by code_simp
  ultimately show ?thesis by simp
qed

text \<open>
  C3. The FrameSet of \<open>"1,5,7"\<close> has the gaps 2 to 4 and 6, and this is the list handed
  to the compactor; its inverted range is \<open>"2-4"\<close>, which leaves frame 6 out.
\<close>

theorem inverted_range_loses_gap:
  "\<exists>fs. FrameSet_init ''1,5,7'' = Inr fs
        \<and> inverted_loop (sorted_list_of_set (fs_set fs)) [] = [2, 3, 4, 6]
        \<and> invertedFrameRange fs 0 = Inr ''2-4''"
proof -
  have "FrameSet_init ''1,5,7'' =
          Inr \<lparr>fs_frange = ''1,5,7'', fs_set = {1, 5, 7}, fs_list = [1, 5, 7]\<rparr>"
    by code_simp
  moreover have
    "inverted_loop (sorted_list_of_set {1, 5, 7 :: int}) [] = [2, 3, 4, 6]"
    by code_simp
  moreover have
    "invertedFrameRange \<lparr>fs_frange = ''1,5,7'', fs_set = {1, 5, 7}, fs_list = [1, 5, 7]\<rparr> 0
       = Inr ''2-4''"
    by code_simp
  ultimately show ?thesis by simp
qed

section \<open>File sequences\<close>

lemma FileSequence_init_example:
  "FileSequence_init ''/path/to/file.1-5#.exr'' =
     Inr \<lparr>seq_dir = ''/path/to/'', seq_basename = Some ''file.'', seq_padding = Some ''#'',
          seq_frameSet = Some \<lparr>fs_frange = ''1-5'', fs_set = {1, 2, 3, 4, 5},
                                fs_list = [1, 2, 3, 4, 5]\<rparr>,
          seq_ext = Some ''.exr'', seq_zfill = 4\<rparr>"
  by code_simp

text \<open>
  C9. For the sequence parsed from \<open>"/path/to/file.1-5#.exr"\<close>, \<open>frame(3)\<close> is
  \<open>"/path/to/file.0003.exr"\<close> and \<open>frame("#")\<close> is \<open>"/path/to/file.#.exr"\<close>: the pad
  width is 4, every integer is zero-filled to it and spliced between directory, basename
  and extension (so are the digits \<open>"3"\<close>), and the token \<open>"#"\<close> is spliced in as it is.
\<close>

theorem FileSequence_frame_example:
  "\<exists>seq. FileSequence_init ''/path/to/file.1-5#.exr'' = Inr seq
         \<and> seq_zfill seq = 4
         \<and> FileSequence_frame seq (PyInt 3) = Inr ''/path/to/file.0003.exr''
         \<and> FileSequence_frame seq (PyStr ''#'') = Inr ''/path/to/file.#.exr''
         \<and> FileSequence_frame seq (PyStr ''3'') = Inr ''/path/to/file.0003.exr''
         \<and> (\<forall>i. FileSequence_frame seq (PyInt i)
                  = Inr (''/path/to/file.'' @ str_zfill (str_int i) 4 @ ''.exr''))"
proof -
  let ?seq = "\<lparr>seq_dir = ''/path/to/'', seq_basename = Some ''file.'', seq_padding = Some ''#'',
          seq_frameSet = Some \<lparr>fs_frange = ''1-5'', fs_set = {1, 2, 3, 4, 5 :: int},
                                fs_list = [1, 2, 3, 4, 5]\<rparr>,
          seq_ext = Some ''.exr'', seq_zfill = 4\<rparr>"
  have "FileSequence_frame ?seq (PyInt 3) = Inr ''/path/to/file.0003.exr''"
    by code_simp
  moreover have "FileSequence_frame ?seq (PyStr ''#'') = Inr ''/path/to/file.#.exr''"
    by code_simp
  moreover have "FileSequence_frame ?seq (PyStr ''3'') = Inr ''/path/to/file.0003.exr''"
    by code_simp
  moreover have "FileSequence_frame ?seq (PyInt i)
                  = Inr (''/path/to/file.'' @ str_zfill (str_int i) 4 @ ''.exr'')" for i
    by (simp add: FileSequence_frame_def)
  ultimately show ?thesis
    using FileSequence_init_example by simp
qed

lemma no_range_with_extension:
  "\<exists>seq. FileSequence_init ''/path/to/file.exr'' = Inr seq
         \<and> FileSequence_frameSet seq = None
         \<and> FileSequence_start seq = Inl AttributeError
         \<and> FileSequence_end seq = Inl AttributeError
         \<and> FileSequence_frameRange seq = Inl AttributeError
         \<and> FileSequence_invertedFrameRange seq = Inl AttributeError
         \<and> FileSequence_index seq 0 = Inl TypeError
         \<and> FileSequence_iter seq = Inl TypeError
         \<and> FileSequence_frame seq (PyInt 3) = Inr ''/path/to/file3.exr''
         \<and> FileSequence_frame seq (PyStr ''#'') = Inr ''/path/to/file#.exr''
         \<and> FileSequence_str seq = Inr ''/path/to/file.exr''"
proof -
  let ?seq = "\<lparr>seq_dir = ''/path/to/'', seq_basename = Some ''file'', seq_padding = Some [],
               seq_frameSet = None, seq_ext = Some ''.exr'', seq_zfill = 0\<rparr>"
  have "FileSequence_init ''/path/to/file.exr'' = Inr ?seq"
    by code_simp
  moreover have "FileSequence_frameSet ?seq = None"
    "FileSequence_start ?seq = Inl AttributeError"
    "FileSequence_end ?seq = Inl AttributeError"
    "FileSequence_frameRange ?seq = Inl AttributeError"
    "FileSequence_invertedFrameRange ?seq = Inl AttributeError"
    "FileSequence_index ?seq 0 = Inl TypeError"
    "FileSequence_iter ?seq = Inl TypeError"
    by (simp_all add: FileSequence_frameSet_def FileSequence_start_def FileSequence_end_def
        FileSequence_frameRange_def FileSequence_invertedFrameRange_def FileSequence_index_def
        FileSequence_iter_def)
  moreover have "FileSequence_frame ?seq (PyInt 3) = Inr ''/path/to/file3.exr''"
    "FileSequence_frame ?seq (PyStr ''#'') = Inr ''/path/to/file#.exr''"
    "FileSequence_str ?seq = Inr ''/path/to/file.exr''"
    by code_simp+
  ultimately show ?thesis by simp
qed

text \<open>
  C10. A descriptor with no frame range and no extension, \<open>"/path/to/file"\<close>, parses to a
  sequence whose frame set and extension are both \<open>None\<close>; \<open>frame\<close> and the string
  rendering then raise \<open>TypeError\<close>. A descriptor that is a directory only, \<open>"/path/to/"\<close>,
  raises \<open>TypeError\<close> in the constructor. With an extension, \<open>"/path/to/file.exr"\<close>,
  \<open>frame\<close> and the rendering succeed (the lemma before).
\<close>

theorem no_range_no_extension:
  "FileSequence_init ''/path/to/'' = Inl TypeError
   \<and> (\<exists>seq. FileSequence_init ''/path/to/file'' = Inr seq
         \<and> FileSequence_frameSet seq = None \<and> seq_ext seq = None
         \<and> FileSequence_start seq = Inl AttributeError
         \<and> FileSequence_frame seq (PyInt 3) = Inl TypeError
         \<and> FileSequence_frame seq (PyStr ''#'') = Inl TypeError
         \<and> FileSequence_str seq = Inl TypeError)"
proof -
  let ?seq = "\<lparr>seq_dir = ''/path/to/'', seq_basename = Some ''file'', seq_padding = Some [],
               seq_frameSet = None, seq_ext = None, seq_zfill = 0\<rparr>"
  have "FileSequence_init ''/path/to/'' = Inl TypeError"
    by code_simp
  moreover have "FileSequence_init ''/path/to/file'' = Inr ?seq"
    by code_simp
  moreover have "FileSequence_frameSet ?seq = None" "seq_ext ?seq = None"
    by (simp_all add: FileSequence_frameSet_def)
  moreover have "FileSequence_start ?seq = Inl AttributeError"
    by (simp add: FileSequence_start_def)
  moreover have "FileSequence_frame ?seq (PyInt 3) = Inl TypeError"
    by (simp add: FileSequence_frame_def)
  moreover have "FileSequence_frame ?seq (PyStr ''#'') = Inl TypeError"
    by (simp add: FileSequence_frame_def)
  moreover have "FileSequence_str ?seq = Inl TypeError"
    by (simp add: FileSequence_str_def)
  ultimately show ?thesis by simp
qed

end
